theory Spec2Isabelle
  imports Main "HOL-Library.AList" "HOL-Library.Multiset"
begin

section \<open>Data model of \<^verbatim>\<open>viridian_workflow/primers.py\<close>\<close>

text \<open>
  Python exceptions are values. \<open>TypeError\<close> is what arithmetic on, or unpacking of,
  \<^verbatim>\<open>None\<close> raises; \<open>ValueError\<close> is what \<^verbatim>\<open>min\<close> of an empty collection, a
  tuple unpacking of the wrong arity and a null interval raise; \<open>AttributeError\<close> is the
  read of an attribute that was never assigned; \<open>Exception\<close> is the bare
  \<^verbatim>\<open>raise Exception\<close> of \<^verbatim>\<open>AmpliconSet.match\<close>.
\<close>

datatype error = TypeError | ValueError | AttributeError | KeyError | IndexError | Exception

text \<open>
  \<^verbatim>\<open>Primer = namedtuple("Primer", ["name", "seq", "left", "forward", "pos"])\<close>.
  Positions are Python integers, sequences are strings.
\<close>

record primer =
  p_name :: string
  p_seq :: string
  p_left :: bool
  p_forward :: bool
  p_pos :: int

text \<open>
  The attributes of class \<^verbatim>\<open>Amplicon\<close>. An attribute that holds \<^verbatim>\<open>None\<close> is
  \<open>None\<close> here; the two regions are pairs \<^verbatim>\<open>(start, end)\<close>.
\<close>

record amplicon =
  a_shortname :: int
  a_name :: string
  a_start :: "int option"
  a_end :: "int option"
  a_left :: "primer list"
  a_right :: "primer list"
  left_primer_region :: "(int \<times> int) option"
  right_primer_region :: "(int \<times> int) option"
  max_length :: nat

text \<open>\<^verbatim>\<open>Amplicon.__init__(self, name, shortname=0)\<close>\<close>

definition Amplicon_init :: "string \<Rightarrow> int \<Rightarrow> amplicon" where
  "Amplicon_init name shortname =
     \<lparr>a_shortname = shortname, a_name = name, a_start = None, a_end = None,
      a_left = [], a_right = [], left_primer_region = None,
      right_primer_region = None, max_length = 0\<rparr>"

text \<open>
  \<^verbatim>\<open>in_range(range_tuple, position)\<close>: the unpacking \<^verbatim>\<open>start, end = range_tuple\<close>
  raises \<^verbatim>\<open>TypeError\<close> on \<^verbatim>\<open>None\<close>.
\<close>

definition in_range :: "(int \<times> int) option \<Rightarrow> int \<Rightarrow> error + bool" where
  "in_range range_tuple position =
     (case range_tuple of
        None \<Rightarrow> Inl TypeError
      | Some (start, end') \<Rightarrow> Inr (position < end' \<and> position > start))"

text \<open>
  \<^verbatim>\<open>Amplicon.position_in_primer\<close>: Python's \<^verbatim>\<open>or\<close> evaluates its right operand only
  when the left one is false.
\<close>

definition Amplicon_position_in_primer :: "amplicon \<Rightarrow> int \<Rightarrow> error + bool" where
  "Amplicon_position_in_primer self position =
     (case in_range (left_primer_region self) position of
        Inl e \<Rightarrow> Inl e
      | Inr True \<Rightarrow> Inr True
      | Inr False \<Rightarrow> in_range (right_primer_region self) position)"

text \<open>
  \<^verbatim>\<open>Amplicon.add(self, primer)\<close>. A region is a non-empty tuple, so
  \<^verbatim>\<open>not self.left_primer_region\<close> holds exactly when the region is \<^verbatim>\<open>None\<close>.
  \<^verbatim>\<open>min(self.start, primer.pos)\<close> and \<^verbatim>\<open>max(self.end, primer_end)\<close> raise
  \<^verbatim>\<open>TypeError\<close> when the attribute is \<^verbatim>\<open>None\<close>.
\<close>

definition Amplicon_add :: "amplicon \<Rightarrow> primer \<Rightarrow> error + amplicon" where
  "Amplicon_add self0 primer =
     (let primer_end = p_pos primer + int (length (p_seq primer));
          self1 = (if length (p_seq primer) > max_length self0
                   then self0\<lparr>max_length := length (p_seq primer)\<rparr> else self0)
      in if p_left primer then
           (let self2 = self1\<lparr>a_left := a_left self1 @ [primer]\<rparr>
            in case left_primer_region self2 of
                 None \<Rightarrow>
                   Inr (self2\<lparr>left_primer_region := Some (p_pos primer, primer_end),
                               a_start := Some (p_pos primer)\<rparr>)
               | Some (left_start, left_end) \<Rightarrow>
                   (let self3 = self2\<lparr>left_primer_region :=
                                   Some (min (p_pos primer) left_start, max primer_end left_end)\<rparr>
                    in case a_start self3 of
                         None \<Rightarrow> Inl TypeError
                       | Some s \<Rightarrow> Inr (self3\<lparr>a_start := Some (min s (p_pos primer))\<rparr>)))
         else
           (let self2 = self1\<lparr>a_right := a_right self1 @ [primer]\<rparr>
            in case right_primer_region self2 of
                 None \<Rightarrow>
                   Inr (self2\<lparr>right_primer_region := Some (p_pos primer, primer_end),
                               a_end := Some primer_end\<rparr>)
               | Some (right_start, right_end) \<Rightarrow>
                   (let self3 = self2\<lparr>right_primer_region :=
                                   Some (min (p_pos primer) right_start, max primer_end right_end)\<rparr>
                    in case a_end self3 of
                         None \<Rightarrow> Inl TypeError
                       | Some e \<Rightarrow> Inr (self3\<lparr>a_end := Some (max e primer_end)\<rparr>))))"

text \<open>
  Adding primers one by one, as the loop of \<^verbatim>\<open>AmpliconSet.from_tsv\<close> does for the rows
  of one amplicon; an exception ends the loop.
\<close>

fun add_all :: "amplicon \<Rightarrow> primer list \<Rightarrow> error + amplicon" where
  "add_all self [] = Inr self"
| "add_all self (p # ps) =
     (case Amplicon_add self p of Inl e \<Rightarrow> Inl e | Inr self' \<Rightarrow> add_all self' ps)"

section \<open>The interval index\<close>

text \<open>
  Modelled from the spec: the interval index is the \<^verbatim>\<open>IntervalTree\<close> of the external
  package \<^verbatim>\<open>intervaltree\<close>, which is not among the sources. The spec asks for an index
  that holds padded spans \<open>[begin, end)\<close> keyed to their amplicon and answers
  ``all intervals containing point p'' and ``all intervals contained within
  \<open>[start, end)\<close>''. The index is a set of \<^verbatim>\<open>Interval(begin, end, data)\<close> values,
  kept here as a duplicate-free list in insertion order. As the package does,
  \<open>tree_add\<close> ignores an interval that is already present and refuses a null interval
  (\<open>begin \<ge> end\<close>) with \<^verbatim>\<open>ValueError\<close>, and \<open>tree_envelop\<close> of a null query is empty.
\<close>

type_synonym interval = "int \<times> int \<times> amplicon"

definition tree_add :: "interval \<Rightarrow> interval list \<Rightarrow> error + interval list" where
  "tree_add iv t =
     (if iv \<in> set t then Inr t
      else if fst iv \<ge> fst (snd iv) then Inl ValueError
      else Inr (t @ [iv]))"

definition tree_at :: "int \<Rightarrow> interval list \<Rightarrow> interval list" where
  "tree_at p t = filter (\<lambda>(begin', end', data). begin' \<le> p \<and> p < end') t"

definition tree_envelop :: "int \<Rightarrow> int \<Rightarrow> interval list \<Rightarrow> interval list" where
  "tree_envelop begin' end' t =
     (if begin' \<ge> end' then []
      else filter (\<lambda>(b, e, data). b \<ge> begin' \<and> e \<le> end') t)"

text \<open>\<^verbatim>\<open>set.intersection\<close> on two sets kept as duplicate-free lists.\<close>

definition intersection :: "'a list \<Rightarrow> 'a list \<Rightarrow> 'a list" where
  "intersection xs ys = filter (\<lambda>x. x \<in> set ys) xs"

section \<open>AmpliconSet\<close>

text \<open>
  The attributes of class \<^verbatim>\<open>AmpliconSet\<close>. A Python \<^verbatim>\<open>dict\<close> is an association
  list in insertion order, written with \<open>AList.update\<close> (an existing key keeps its
  place, a new key goes to the end) and read with \<open>map_of\<close>. \<open>s_shortname\<close> is
  \<open>None\<close> when the attribute \<^verbatim>\<open>shortname\<close> was never assigned, so that reading it
  raises \<^verbatim>\<open>AttributeError\<close>.
\<close>

record AmpliconSet =
  s_shortname :: "string option"
  tree :: "interval list"
  s_name :: string
  seqs :: "(string \<times> amplicon) list"
  amplicons :: "(string \<times> amplicon) list"
  amplicon_ids :: "(int \<times> amplicon) list"
  min_primer_length :: nat

text \<open>
  The ``base-54 hash'' of line 114:
  \<^verbatim>\<open>chr(((sum(map(ord, name)) - ord("A")) % 54) + 65)\<close>. Python's \<^verbatim>\<open>%\<close> with a
  positive divisor is the floor modulus, as \<open>mod\<close> on \<open>int\<close> is. Characters are
  their code points below 256.
\<close>

definition base54_hash :: "string \<Rightarrow> string" where
  "base54_hash name =
     [char_of (((sum_list (map of_char name) - of_char CHR ''A'') mod 54) + (65 :: int))]"

text \<open>
  The two inner loops of the constructor over \<^verbatim>\<open>amplicon.left\<close> and
  \<^verbatim>\<open>amplicon.right\<close>: each primer's sequence is keyed to the amplicon and its length
  joins the set \<^verbatim>\<open>primer_lengths\<close>.
\<close>

definition add_primer_seqs ::
  "amplicon \<Rightarrow> primer list \<Rightarrow> (string \<times> amplicon) list \<times> nat list
     \<Rightarrow> (string \<times> amplicon) list \<times> nat list" where
  "add_primer_seqs amplicon ps st =
     fold (\<lambda>primer (sequences, primer_lengths).
             (AList.update (p_seq primer) amplicon sequences,
              List.insert (length (p_seq primer)) primer_lengths)) ps st"

text \<open>
  The outer loop \<^verbatim>\<open>for amplicon_name in amplicons\<close> (lines 123 to 138). The dict
  \<^verbatim>\<open>amplicons\<close> is the list of its items; the loop visits the value of each key in
  insertion order. \<^verbatim>\<open>amplicon.start - tolerance\<close> and \<^verbatim>\<open>amplicon.end + tolerance\<close>
  raise \<^verbatim>\<open>TypeError\<close> on \<^verbatim>\<open>None\<close>. The state is
  \<open>(amplicon_ids, sequences, primer_lengths, tree)\<close>.
\<close>

fun init_loop ::
  "int \<Rightarrow> (string \<times> amplicon) list
     \<Rightarrow> (int \<times> amplicon) list \<times> (string \<times> amplicon) list \<times> nat list \<times> interval list
     \<Rightarrow> error + ((int \<times> amplicon) list \<times> (string \<times> amplicon) list \<times> nat list \<times> interval list)"
  where
  "init_loop tolerance [] st = Inr st"
| "init_loop tolerance ((amplicon_name, amplicon) # rest) (ids, sequences, primer_lengths, t) =
     (let ids' = AList.update (a_shortname amplicon) amplicon ids;
          (sequences', primer_lengths') =
             add_primer_seqs amplicon (a_right amplicon)
               (add_primer_seqs amplicon (a_left amplicon) (sequences, primer_lengths))
      in case a_start amplicon of
           None \<Rightarrow> Inl TypeError
         | Some s \<Rightarrow>
             (case a_end amplicon of
                None \<Rightarrow> Inl TypeError
              | Some e \<Rightarrow>
                  (case tree_add (s - tolerance, e + tolerance, amplicon) t of
                     Inl err \<Rightarrow> Inl err
                   | Inr t' \<Rightarrow> init_loop tolerance rest (ids', sequences', primer_lengths', t'))))"

text \<open>
  \<^verbatim>\<open>AmpliconSet.__init__(self, name, amplicons, tolerance=5, shortname=None)\<close>.
  \<^verbatim>\<open>not shortname\<close> holds for \<^verbatim>\<open>None\<close> and for the empty string; only then is
  \<^verbatim>\<open>self.shortname\<close> assigned (there is no \<^verbatim>\<open>else\<close>). \<^verbatim>\<open>min\<close> of the empty set
  raises \<^verbatim>\<open>ValueError\<close>. The last loop fills \<^verbatim>\<open>self.seqs\<close> from the items of
  \<^verbatim>\<open>sequences\<close>, each key cut to \<^verbatim>\<open>min_primer_length\<close> characters.
\<close>

definition AmpliconSet_init ::
  "string \<Rightarrow> (string \<times> amplicon) list \<Rightarrow> int \<Rightarrow> string option \<Rightarrow> error + AmpliconSet" where
  "AmpliconSet_init name amplicons' tolerance shortname =
     (case init_loop tolerance amplicons' ([], [], [], []) of
        Inl e \<Rightarrow> Inl e
      | Inr (ids, sequences, primer_lengths, t) \<Rightarrow>
          (case primer_lengths of
             [] \<Rightarrow> Inl ValueError
           | l # ls \<Rightarrow>
               (let m = fold min ls l
                in Inr \<lparr>s_shortname =
                          (if shortname = None \<or> shortname = Some [] then Some (base54_hash name)
                           else None),
                        tree = t,
                        s_name = name,
                        seqs = fold (\<lambda>(k, v). AList.update (take m k) v) sequences [],
                        amplicons = amplicons',
                        amplicon_ids = ids,
                        min_primer_length = m\<rparr>)))"

text \<open>
  \<^verbatim>\<open>AmpliconSet.match(self, start, end)\<close>. \<open>Inr None\<close> is the return of \<^verbatim>\<open>None\<close>
  (no match), \<open>Inl Exception\<close> the \<^verbatim>\<open>raise Exception\<close>. The returned list
  \<^verbatim>\<open>[hit.data for hit in hits]\<close> runs over a Python set, whose order is not fixed;
  the list here is in insertion order and the theorems speak of its set of elements.
\<close>

definition AmpliconSet_match :: "AmpliconSet \<Rightarrow> int \<Rightarrow> int \<Rightarrow> error + amplicon list option" where
  "AmpliconSet_match self start end' =
     (let hits = intersection (tree_at start (tree self)) (tree_at end' (tree self));
          enveloped = tree_envelop start end' (tree self)
      in if enveloped \<noteq> [] then Inr None
         else if length hits = 0 then Inr None
         else if length hits > 2 then Inl Exception
         else Inr (Some (map (\<lambda>(b, e, data). data) hits)))"

section \<open>Tag propagation\<close>

text \<open>
  Modelled from the spec: the read is an external collaborator (a record of an alignment
  file) that is not among the sources. It stores a collection of
  \<open>(key, value, type)\<close> triples. \<^verbatim>\<open>read.set_tags(tags)\<close> writes all the triples it is
  given in one batch and does not remove the tags that the read already holds under other
  keys; what the read holds under a key of the batch gives way to the batch. The values
  this program writes are the integer shortnames of amplicons.
\<close>

record read =
  tags :: "(string \<times> int \<times> string) list"

definition read_set_tags :: "read \<Rightarrow> (string \<times> int \<times> string) list \<Rightarrow> read" where
  "read_set_tags r ts =
     r\<lparr>tags := filter (\<lambda>(k, v, t). k \<notin> fst ` set ts) (tags r) @ ts\<rparr>"

text \<open>
  What \<^verbatim>\<open>read.get_tags()\<close> yields for each stored tag is a tuple of two or of three
  components. Under the contract of the spec it is the triple; the loop of
  \<open>get_tags\<close> below unpacks pairs \<open>(key, value)\<close>.
\<close>

datatype tag_tuple = Tuple2 string int | Tuple3 string int string

definition read_get_tags_triples :: "read \<Rightarrow> tag_tuple list" where
  "read_get_tags_triples r = map (\<lambda>(k, v, t). Tuple3 k v t) (tags r)"

definition read_get_tags_pairs :: "read \<Rightarrow> tag_tuple list" where
  "read_get_tags_pairs r = map (\<lambda>(k, v, t). Tuple2 k v) (tags r)"

text \<open>
  \<^verbatim>\<open>set_tags(amplicon_sets, read, matches)\<close>, lines 18 to 33. The body of
  \<^verbatim>\<open>if amplicon_set.shortname in shortnames\<close> builds an \<^verbatim>\<open>Exception\<close> object and drops
  it: there is no \<^verbatim>\<open>raise\<close>, so the statement raises nothing on either branch
  (\<open>None\<close> below). \<^verbatim>\<open>matches\<close> is a dict from the name of a set to a list of amplicons.
  The loop state is \<open>(shortnames, tags)\<close>.
\<close>

fun set_tags_loop ::
  "AmpliconSet list \<Rightarrow> (string \<rightharpoonup> amplicon list) \<Rightarrow> string list
     \<Rightarrow> (string \<times> int \<times> string) list \<Rightarrow> error + (string \<times> int \<times> string) list" where
  "set_tags_loop [] matches shortnames tags' = Inr tags'"
| "set_tags_loop (amplicon_set # rest) matches shortnames tags' =
     (case s_shortname amplicon_set of
        None \<Rightarrow> Inl AttributeError
      | Some shortname \<Rightarrow>
          (case (if shortname \<in> set shortnames then None else None) of
             Some raised \<Rightarrow> Inl raised
           | None \<Rightarrow>
               (let shortnames' = List.insert shortname shortnames
                in case matches (s_name amplicon_set) of
                     None \<Rightarrow> set_tags_loop rest matches shortnames' tags'
                   | Some ms \<Rightarrow>
                       set_tags_loop rest matches shortnames'
                         (tags' @ map (\<lambda>amplicon.
                                   (CHR ''Z'' # shortname, a_shortname amplicon, ''i'')) ms))))"

definition set_tags ::
  "AmpliconSet list \<Rightarrow> read \<Rightarrow> (string \<rightharpoonup> amplicon list) \<Rightarrow> error + read" where
  "set_tags amplicon_sets r matches =
     (case set_tags_loop amplicon_sets matches [] [] of
        Inl e \<Rightarrow> Inl e
      | Inr tags' \<Rightarrow> Inr (read_set_tags r tags'))"

text \<open>
  \<^verbatim>\<open>get_tags(amplicon_set, read)\<close>, lines 36 to 41. The loop header
  \<^verbatim>\<open>for tag, amplicon_id in read.get_tags()\<close> unpacks two components and raises
  \<^verbatim>\<open>ValueError\<close> on a tuple of three. \<^verbatim>\<open>tag[0]\<close> and \<^verbatim>\<open>tag[1]\<close> raise
  \<^verbatim>\<open>IndexError\<close> on a key that is too short, \<^verbatim>\<open>and\<close> evaluates its right operand
  only when the left one holds, and \<^verbatim>\<open>amplicon_ids[amplicon_id]\<close> raises
  \<^verbatim>\<open>KeyError\<close> on an unknown id. The first argument is the read's own
  \<^verbatim>\<open>get_tags\<close> method.
\<close>

fun get_tags_loop :: "AmpliconSet \<Rightarrow> tag_tuple list \<Rightarrow> amplicon list \<Rightarrow> error + amplicon list" where
  "get_tags_loop amplicon_set [] matches = Inr matches"
| "get_tags_loop amplicon_set (Tuple3 k v t # rest) matches = Inl ValueError"
| "get_tags_loop amplicon_set (Tuple2 tag amplicon_id # rest) matches =
     (case tag of
        [] \<Rightarrow> Inl IndexError
      | t0 # tag' \<Rightarrow>
          if t0 \<noteq> CHR ''Z'' then get_tags_loop amplicon_set rest matches
          else
            (case tag' of
               [] \<Rightarrow> Inl IndexError
             | t1 # tag'' \<Rightarrow>
                 (case s_shortname amplicon_set of
                    None \<Rightarrow> Inl AttributeError
                  | Some shortname \<Rightarrow>
                      if [t1] = shortname then
                        (case map_of (amplicon_ids amplicon_set) amplicon_id of
                           None \<Rightarrow> Inl KeyError
                         | Some a \<Rightarrow> get_tags_loop amplicon_set rest (matches @ [a]))
                      else get_tags_loop amplicon_set rest matches)))"

definition get_tags :: "(read \<Rightarrow> tag_tuple list) \<Rightarrow> AmpliconSet \<Rightarrow> read \<Rightarrow> error + amplicon list" where
  "get_tags read_get_tags amplicon_set r = get_tags_loop amplicon_set (read_get_tags r) []"

section \<open>Notions of the specification\<close>

text \<open>
  The footprint end of a primer, and the region covered by a set of primers of one side:
  the least position and the greatest footprint end.
\<close>

definition primer_end :: "primer \<Rightarrow> int" where
  "primer_end p = p_pos p + int (length (p_seq p))"

definition region_of :: "primer set \<Rightarrow> (int \<times> int) option" where
  "region_of P = (if P = {} then None else Some (Min (p_pos ` P), Max (primer_end ` P)))"

definition regions_agree :: "amplicon \<Rightarrow> primer set \<Rightarrow> primer set \<Rightarrow> bool" where
  "regions_agree A L R \<longleftrightarrow>
     left_primer_region A = region_of L \<and> a_start A = map_option fst (region_of L) \<and>
     right_primer_region A = region_of R \<and> a_end A = map_option snd (region_of R)"

text \<open>
  The padded span \<open>[start - tolerance, end + tolerance)\<close> of an amplicon, what it means
  for the span to contain a point and to lie within \<open>[start, end)\<close>, and the two sets of
  the classification: the amplicons whose padded span contains both endpoints, and those
  whose padded span is enveloped by the read.
\<close>

definition padded_span :: "int \<Rightarrow> amplicon \<Rightarrow> (int \<times> int) option" where
  "padded_span tolerance a =
     (case a_start a of
        None \<Rightarrow> None
      | Some s \<Rightarrow> (case a_end a of None \<Rightarrow> None | Some e \<Rightarrow> Some (s - tolerance, e + tolerance)))"

definition span_contains :: "int \<Rightarrow> amplicon \<Rightarrow> int \<Rightarrow> bool" where
  "span_contains tolerance a p =
     (case padded_span tolerance a of None \<Rightarrow> False | Some (b, e) \<Rightarrow> b \<le> p \<and> p < e)"

definition span_within :: "int \<Rightarrow> amplicon \<Rightarrow> int \<Rightarrow> int \<Rightarrow> bool" where
  "span_within tolerance a start end' =
     (case padded_span tolerance a of None \<Rightarrow> False | Some (b, e) \<Rightarrow> start \<le> b \<and> e \<le> end')"

definition containment :: "int \<Rightarrow> (string \<times> amplicon) list \<Rightarrow> int \<Rightarrow> int \<Rightarrow> amplicon set" where
  "containment tolerance amps start end' =
     set (filter (\<lambda>a. span_contains tolerance a start \<and> span_contains tolerance a end')
            (map snd amps))"

definition envelopment :: "int \<Rightarrow> (string \<times> amplicon) list \<Rightarrow> int \<Rightarrow> int \<Rightarrow> amplicon set" where
  "envelopment tolerance amps start end' =
     set (filter (\<lambda>a. span_within tolerance a start end') (map snd amps))"

definition spans_of :: "int \<Rightarrow> (string \<times> amplicon) list \<Rightarrow> interval set" where
  "spans_of tolerance amps =
     {(b, e, a) |b e a. a \<in> snd ` set amps \<and> padded_span tolerance a = Some (b, e)}"

definition both :: "int \<Rightarrow> int \<Rightarrow> interval \<Rightarrow> bool" where
  "both start end' iv =
     (case iv of (b, e, d) \<Rightarrow> (b \<le> start \<and> start < e) \<and> (b \<le> end' \<and> end' < e))"

text \<open>
  Every primer of a scheme, left and right, of every amplicon, in the order in which the
  constructor visits them; \<open>owned\<close> pairs each with the amplicon it belongs to.
\<close>

definition owned :: "(string \<times> amplicon) list \<Rightarrow> (primer \<times> amplicon) list" where
  "owned amps = concat (map (\<lambda>(n, a). map (\<lambda>p. (p, a)) (a_left a @ a_right a)) amps)"

definition all_primers :: "(string \<times> amplicon) list \<Rightarrow> primer list" where
  "all_primers amps = concat (map (\<lambda>(n, a). a_left a @ a_right a) amps)"

section \<open>An example scheme\<close>

text \<open>
  Amplicon A spans \<open>[100, 200)\<close> and amplicon B spans \<open>[195, 300)\<close>; a third amplicon C
  spans \<open>[192, 260)\<close>, so that with tolerance 5 the three padded spans share the points
  from 190 to 204. The primers have lengths 12, 10, 11, 10, 13 and 10.
\<close>

definition ex_A :: amplicon where
  "ex_A =
     \<lparr>a_shortname = 0, a_name = ''A'', a_start = Some 100, a_end = Some 200,
      a_left = [\<lparr>p_name = ''A_L'', p_seq = ''ACGTACGTACGT'', p_left = True,
                  p_forward = True, p_pos = 100\<rparr>],
      a_right = [\<lparr>p_name = ''A_R'', p_seq = ''TGCATGCATG'', p_left = False,
                   p_forward = False, p_pos = 190\<rparr>],
      left_primer_region = Some (100, 112), right_primer_region = Some (190, 200),
      max_length = 12\<rparr>"

definition ex_B :: amplicon where
  "ex_B =
     \<lparr>a_shortname = 1, a_name = ''B'', a_start = Some 195, a_end = Some 300,
      a_left = [\<lparr>p_name = ''B_L'', p_seq = ''GGATCCGGATC'', p_left = True,
                  p_forward = True, p_pos = 195\<rparr>],
      a_right = [\<lparr>p_name = ''B_R'', p_seq = ''CCTAGGCCTA'', p_left = False,
                   p_forward = False, p_pos = 290\<rparr>],
      left_primer_region = Some (195, 206), right_primer_region = Some (290, 300),
      max_length = 11\<rparr>"

definition ex_C :: amplicon where
  "ex_C =
     \<lparr>a_shortname = 2, a_name = ''C'', a_start = Some 192, a_end = Some 260,
      a_left = [\<lparr>p_name = ''C_L'', p_seq = ''TTAACCGGTTAAC'', p_left = True,
                  p_forward = True, p_pos = 192\<rparr>],
      a_right = [\<lparr>p_name = ''C_R'', p_seq = ''AATTGGCCAA'', p_left = False,
                   p_forward = False, p_pos = 250\<rparr>],
      left_primer_region = Some (192, 205), right_primer_region = Some (250, 260),
      max_length = 13\<rparr>"

definition ex_amplicons :: "(string \<times> amplicon) list" where
  "ex_amplicons = [(''A'', ex_A), (''B'', ex_B)]"

definition ex_amplicons3 :: "(string \<times> amplicon) list" where
  "ex_amplicons3 = [(''A'', ex_A), (''B'', ex_B), (''C'', ex_C)]"

text \<open>The set that the constructor builds from A and B under a given name.\<close>

definition ex_scheme :: "string \<Rightarrow> string option \<Rightarrow> AmpliconSet" where
  "ex_scheme name shortname =
     \<lparr>s_shortname = shortname,
      tree = [(95, 205, ex_A), (190, 305, ex_B)],
      s_name = name,
      seqs = [(''ACGTACGTAC'', ex_A), (''TGCATGCATG'', ex_A),
              (''GGATCCGGAT'', ex_B), (''CCTAGGCCTA'', ex_B)],
      amplicons = ex_amplicons,
      amplicon_ids = [(0, ex_A), (1, ex_B)],
      min_primer_length = 10\<rparr>"

section \<open>Amplicon: regions and primer positions\<close>

lemma region_of_insert:
  "finite P \<Longrightarrow> region_of (insert p P) =
     (case region_of P of
        None \<Rightarrow> Some (p_pos p, primer_end p)
      | Some (s, e) \<Rightarrow> Some (min (p_pos p) s, max (primer_end p) e))"
  by (simp add: region_of_def)

lemma Amplicon_add_left:
  assumes "finite L" "regions_agree A L R" "p_left p"
  shows "\<exists>B. Amplicon_add A p = Inr B \<and> regions_agree B (insert p L) R"
  using assms
  by (auto simp: Amplicon_add_def regions_agree_def region_of_insert Let_def primer_end_def
      min.commute split: option.splits)

lemma Amplicon_add_right:
  assumes "finite R" "regions_agree A L R" "\<not> p_left p"
  shows "\<exists>B. Amplicon_add A p = Inr B \<and> regions_agree B L (insert p R)"
  using assms
  by (auto simp: Amplicon_add_def regions_agree_def region_of_insert Let_def primer_end_def
      max.commute split: option.splits)

text \<open>
  From an amplicon whose four attributes agree with the primers seen so far, adding a
  list of primers never raises, and the attributes agree with the enlarged sets.
\<close>

lemma add_all_regions:
  assumes "finite L" "finite R" "regions_agree A L R"
  shows "\<exists>B. add_all A ps = Inr B \<and>
           regions_agree B (L \<union> {p \<in> set ps. p_left p}) (R \<union> {p \<in> set ps. \<not> p_left p})"
  using assms
proof (induction ps arbitrary: A L R)
  case Nil
  then show ?case by simp
next
  case (Cons p ps)
  show ?case
  proof (cases "p_left p")
    case True
    from Amplicon_add_left[OF Cons.prems(1,3) True] obtain B
      where B: "Amplicon_add A p = Inr B" "regions_agree B (insert p L) R" by blast
    from Cons.IH[of "insert p L" R B] Cons.prems B(2) obtain C
      where C: "add_all B ps = Inr C"
        "regions_agree C (insert p L \<union> {q \<in> set ps. p_left q}) (R \<union> {q \<in> set ps. \<not> p_left q})"
      by auto
    have "insert p L \<union> {q \<in> set ps. p_left q} = L \<union> {q \<in> set (p # ps). p_left q}"
      "R \<union> {q \<in> set ps. \<not> p_left q} = R \<union> {q \<in> set (p # ps). \<not> p_left q}"
      using True by auto
    with B C show ?thesis by simp
  next
    case False
    from Amplicon_add_right[OF Cons.prems(2,3) False] obtain B
      where B: "Amplicon_add A p = Inr B" "regions_agree B L (insert p R)" by blast
    from Cons.IH[of L "insert p R" B] Cons.prems B(2) obtain C
      where C: "add_all B ps = Inr C"
        "regions_agree C (L \<union> {q \<in> set ps. p_left q}) (insert p R \<union> {q \<in> set ps. \<not> p_left q})"
      by auto
    have "insert p R \<union> {q \<in> set ps. \<not> p_left q} = R \<union> {q \<in> set (p # ps). \<not> p_left q}"
      "L \<union> {q \<in> set ps. p_left q} = L \<union> {q \<in> set (p # ps). p_left q}"
      using False by auto
    with B C show ?thesis by simp
  qed
qed

lemma add_all_fresh:
  "\<exists>B. add_all (Amplicon_init n k) ps = Inr B \<and>
       regions_agree B {p \<in> set ps. p_left p} {p \<in> set ps. \<not> p_left p}"
proof -
  have "regions_agree (Amplicon_init n k) {} {}"
    by (simp add: regions_agree_def region_of_def Amplicon_init_def)
  from add_all_regions[OF _ _ this, of ps] show ?thesis by simp
qed

text \<open>
  The amplicons of the example scheme are what \<^verbatim>\<open>Amplicon.add\<close> builds from their
  primers.
\<close>

lemma ex_amplicons_added:
  "add_all (Amplicon_init ''A'' 0) (a_left ex_A @ a_right ex_A) = Inr ex_A"
  "add_all (Amplicon_init ''B'' 1) (a_left ex_B @ a_right ex_B) = Inr ex_B"
  "add_all (Amplicon_init ''C'' 2) (a_left ex_C @ a_right ex_C) = Inr ex_C"
  by (simp_all add: ex_A_def ex_B_def ex_C_def Amplicon_init_def Amplicon_add_def)

text \<open>
  Claim C8. Adding the same primers to a fresh amplicon in two orders (two lists with the
  same elements, counted with multiplicity) succeeds both times and yields the same
  \<open>start\<close>, \<open>end\<close>, \<open>left_primer_region\<close> and \<open>right_primer_region\<close>.
\<close>

theorem add_order_independent:
  assumes "mset ps = mset qs"
  shows "\<exists>A B. add_all (Amplicon_init n k) ps = Inr A \<and>
           add_all (Amplicon_init n k) qs = Inr B \<and>
           a_start A = a_start B \<and> a_end A = a_end B \<and>
           left_primer_region A = left_primer_region B \<and>
           right_primer_region A = right_primer_region B"
proof -
  from assms have s: "set ps = set qs" by (rule mset_eq_setD)
  obtain A where A: "add_all (Amplicon_init n k) ps = Inr A"
    "regions_agree A {p \<in> set ps. p_left p} {p \<in> set ps. \<not> p_left p}"
    using add_all_fresh by blast
  obtain B where B: "add_all (Amplicon_init n k) qs = Inr B"
    "regions_agree B {p \<in> set qs. p_left p} {p \<in> set qs. \<not> p_left p}"
    using add_all_fresh by blast
  from A(2) B(2) s show ?thesis
    unfolding regions_agree_def using A(1) B(1) by simp
qed

theorem add_order_independent_witness:
  "mset (a_left ex_A @ a_right ex_A @ a_left ex_C) = mset (a_left ex_C @ a_right ex_A @ a_left ex_A) \<and>
   (\<exists>A B. add_all (Amplicon_init ''A'' 0) (a_left ex_A @ a_right ex_A @ a_left ex_C) = Inr A \<and>
          add_all (Amplicon_init ''A'' 0) (a_left ex_C @ a_right ex_A @ a_left ex_A) = Inr B \<and>
          a_start A = a_start B \<and> a_end A = a_end B \<and>
          left_primer_region A = left_primer_region B \<and>
          right_primer_region A = right_primer_region B)"
proof -
  have m: "mset (a_left ex_A @ a_right ex_A @ a_left ex_C)
             = mset (a_left ex_C @ a_right ex_A @ a_left ex_A)"
    by (simp add: ex_A_def ex_C_def)
  from add_order_independent[OF m, of "''A''" 0] m show ?thesis by blast
qed

text \<open>
  Claim C10, as amended. \<^verbatim>\<open>position_in_primer\<close> raises when the left region is unset.
  When the left region is set and the right one is unset, it returns true for a position
  strictly inside the left region (the right operand of \<^verbatim>\<open>or\<close> is not evaluated) and
  raises otherwise. So with a region unset it never returns false. With both regions set
  it returns whether the position lies strictly between the bounds of the left region or
  strictly between the bounds of the right one.
\<close>

theorem position_in_primer_cases:
  "(left_primer_region a = None \<longrightarrow> Amplicon_position_in_primer a pos = Inl TypeError) \<and>
   (\<forall>ls le. left_primer_region a = Some (ls, le) \<and> right_primer_region a = None \<longrightarrow>
      Amplicon_position_in_primer a pos =
        (if ls < pos \<and> pos < le then Inr True else Inl TypeError)) \<and>
   (\<forall>ls le rs re.
      left_primer_region a = Some (ls, le) \<and> right_primer_region a = Some (rs, re) \<longrightarrow>
      Amplicon_position_in_primer a pos =
        Inr ((ls < pos \<and> pos < le) \<or> (rs < pos \<and> pos < re))) \<and>
   (left_primer_region a = None \<or> right_primer_region a = None \<longrightarrow>
      Amplicon_position_in_primer a pos \<noteq> Inr False)"
  by (auto simp: Amplicon_position_in_primer_def in_range_def split: option.splits bool.splits)

theorem position_in_primer_cases_witness:
  "left_primer_region ex_A = Some (100, 112) \<and> right_primer_region ex_A = Some (190, 200) \<and>
   Amplicon_position_in_primer ex_A 195 = Inr True \<and>
   Amplicon_position_in_primer ex_A 150 = Inr False \<and>
   Amplicon_position_in_primer ex_A 100 = Inr False"
  using position_in_primer_cases[of ex_A 195] position_in_primer_cases[of ex_A 150]
    position_in_primer_cases[of ex_A 100]
  by (simp add: ex_A_def)

text \<open>
  The claim as stated fails: an amplicon that has received one left primer and no right
  primer has no right region, and the call returns true at a position inside the left
  primer.
\<close>

theorem position_in_primer_counterexample:
  "add_all (Amplicon_init ''A'' 0) (a_left ex_A) =
     Inr (ex_A\<lparr>a_end := None, a_right := [], right_primer_region := None\<rparr>) \<and>
   right_primer_region (ex_A\<lparr>a_end := None, a_right := [], right_primer_region := None\<rparr>) = None \<and>
   Amplicon_position_in_primer
     (ex_A\<lparr>a_end := None, a_right := [], right_primer_region := None\<rparr>) 105 = Inr True"
  by (simp add: ex_A_def Amplicon_init_def Amplicon_add_def Amplicon_position_in_primer_def
      in_range_def)

section \<open>AmpliconSet: the interval index after construction\<close>

lemma spans_of_Nil [simp]: "spans_of tol [] = {}"
  by (simp add: spans_of_def)

lemma spans_of_Cons:
  "spans_of tol ((n, a) # amps) =
     (case padded_span tol a of None \<Rightarrow> {} | Some (b, e) \<Rightarrow> {(b, e, a)}) \<union> spans_of tol amps"
  by (auto simp: spans_of_def split: option.splits)

lemma tree_add_Inr:
  assumes "tree_add iv t = Inr t'" "distinct t"
  shows "distinct t' \<and> set t' = insert iv (set t)"
  using assms by (auto simp: tree_add_def split: if_splits)

text \<open>
  When the loop of the constructor ends without an exception, the index holds exactly the
  padded spans of the amplicons, each once, and every amplicon has a padded span.
\<close>

lemma init_loop_tree:
  assumes "init_loop tol amps (ids, sq, pl, t) = Inr (ids', sq', pl', t')" "distinct t"
  shows "distinct t' \<and> set t' = set t \<union> spans_of tol amps \<and>
         (\<forall>a \<in> snd ` set amps. padded_span tol a \<noteq> None)"
  using assms
proof (induction amps arbitrary: ids sq pl t)
  case Nil
  then show ?case by simp
next
  case (Cons na amps)
  obtain n a where na: "na = (n, a)" by (cases na)
  from Cons.prems(1) obtain s e where se: "a_start a = Some s" "a_end a = Some e"
    unfolding na by (auto split: option.splits prod.splits)
  from Cons.prems(1) se obtain t1 where t1: "tree_add (s - tol, e + tol, a) t = Inr t1"
    unfolding na by (auto split: sum.splits prod.splits)
  from Cons.prems(1) se t1 obtain ids1 sq1 pl1 where
    rest: "init_loop tol amps (ids1, sq1, pl1, t1) = Inr (ids', sq', pl', t')"
    unfolding na by (auto split: prod.splits)
  from tree_add_Inr[OF t1 Cons.prems(2)] have d1: "distinct t1"
    and s1: "set t1 = insert (s - tol, e + tol, a) (set t)" by simp_all
  from Cons.IH[OF rest d1] have ih: "distinct t'" "set t' = set t1 \<union> spans_of tol amps"
    "\<forall>a \<in> snd ` set amps. padded_span tol a \<noteq> None" by simp_all
  have ps: "padded_span tol a = Some (s - tol, e + tol)"
    using se by (simp add: padded_span_def)
  show ?case
    using ih s1 ps unfolding na by (auto simp: spans_of_Cons)
qed

lemma init_loop_of_init:
  assumes "AmpliconSet_init name amps tol sn = Inr S"
  shows "\<exists>ids sq pl. init_loop tol amps ([], [], [], []) = Inr (ids, sq, pl, tree S) \<and>
           pl \<noteq> [] \<and> amplicon_ids S = ids \<and> min_primer_length S = fold min (tl pl) (hd pl) \<and>
           seqs S = fold (\<lambda>(k, v). AList.update (take (min_primer_length S) k) v) sq [] \<and>
           s_name S = name \<and>
           s_shortname S = (if sn = None \<or> sn = Some [] then Some (base54_hash name) else None)"
  using assms
  by (auto simp: AmpliconSet_init_def Let_def split: sum.splits prod.splits list.splits)

lemma init_tree:
  assumes "AmpliconSet_init name amps tol sn = Inr S"
  shows "distinct (tree S) \<and> set (tree S) = spans_of tol amps \<and>
         (\<forall>a \<in> snd ` set amps. padded_span tol a \<noteq> None)"
proof -
  from init_loop_of_init[OF assms] obtain ids sq pl where
    l: "init_loop tol amps ([], [], [], []) = Inr (ids, sq, pl, tree S)" by blast
  from init_loop_tree[OF l] show ?thesis by simp
qed

section \<open>AmpliconSet.match\<close>

lemma hits_filter:
  "intersection (tree_at start t) (tree_at end' t) = filter (both start end') t"
  by (auto simp: intersection_def tree_at_def both_def intro!: filter_cong)

lemma spans_data_inj: "inj_on (\<lambda>(b, e, d). d) (spans_of tol amps)"
  by (auto simp: inj_on_def spans_of_def)

lemma hits_data:
  assumes "distinct t" "set t = spans_of tol amps"
  shows "distinct (map (\<lambda>(b, e, d). d) (filter (both start end') t)) \<and>
         set (map (\<lambda>(b, e, d). d) (filter (both start end') t)) = containment tol amps start end'"
proof -
  have "inj_on (\<lambda>(b, e, d). d) (set (filter (both start end') t))"
    using spans_data_inj[of tol amps] assms(2) by (auto simp: inj_on_def)
  then have "distinct (map (\<lambda>(b, e, d). d) (filter (both start end') t))"
    using assms(1) by (simp add: distinct_map)
  moreover have "set (map (\<lambda>(b, e, d). d) (filter (both start end') t))
                   = containment tol amps start end'"
    using assms(2)
    by (auto simp: containment_def spans_of_def both_def span_contains_def image_iff
        split: option.splits)
  ultimately show ?thesis by simp
qed

lemma envelop_empty_iff:
  assumes "set t = spans_of tol amps" "start < end'"
  shows "tree_envelop start end' t = [] \<longleftrightarrow> envelopment tol amps start end' = {}"
  using assms
  by (auto simp: tree_envelop_def envelopment_def spans_of_def span_within_def filter_empty_conv
      split: option.splits) force+

text \<open>
  The result of \<^verbatim>\<open>match\<close> on a set the constructor has built, in terms of the padded
  spans of its amplicons.
\<close>

lemma match_built:
  assumes "AmpliconSet_init name amps tol sn = Inr S" "start < end'"
  shows "\<exists>xs. distinct xs \<and> set xs = containment tol amps start end' \<and>
           AmpliconSet_match S start end' =
             (if envelopment tol amps start end' \<noteq> {} then Inr None
              else if containment tol amps start end' = {} then Inr None
              else if card (containment tol amps start end') > 2 then Inl Exception
              else Inr (Some xs))"
proof -
  let ?hits = "filter (both start end') (tree S)"
  let ?xs = "map (\<lambda>(b, e, d). d) ?hits"
  from init_tree[OF assms(1)] have d: "distinct (tree S)" and s: "set (tree S) = spans_of tol amps"
    by simp_all
  from hits_data[OF d s] have dx: "distinct ?xs" and sx: "set ?xs = containment tol amps start end'"
    by simp_all
  have len: "length ?hits = card (containment tol amps start end')"
    using distinct_card[OF dx] sx by simp
  have fin: "finite (containment tol amps start end')"
    by (simp add: containment_def)
  have "AmpliconSet_match S start end' =
             (if envelopment tol amps start end' \<noteq> {} then Inr None
              else if containment tol amps start end' = {} then Inr None
              else if card (containment tol amps start end') > 2 then Inl Exception
              else Inr (Some ?xs))"
    unfolding AmpliconSet_match_def hits_filter Let_def len
    using envelop_empty_iff[OF s assms(2)] fin by (simp add: card_eq_0_iff)
  with dx sx show ?thesis by blast
qed

text \<open>The example scheme is what the constructor builds from A and B.\<close>

lemma ex_scheme_built:
  "AmpliconSet_init name ex_amplicons 5 None = Inr (ex_scheme name (Some (base54_hash name)))"
  by (simp add: AmpliconSet_init_def ex_amplicons_def ex_scheme_def ex_A_def ex_B_def
      add_primer_seqs_def tree_add_def)

lemma ex_hash:
  "base54_hash ''scheme'' = ''Y''" "base54_hash ''ab'' = ''W''" "base54_hash ''ba'' = ''W''"
  by (simp_all add: base54_hash_def char_of_def)

lemma ex_spans:
  "padded_span 5 ex_A = Some (95, 205)" "padded_span 5 ex_B = Some (190, 305)"
  "padded_span 5 ex_C = Some (187, 265)"
  by (simp_all add: padded_span_def ex_A_def ex_B_def ex_C_def)

lemma ex_distinct: "ex_A \<noteq> ex_B" "ex_A \<noteq> ex_C" "ex_B \<noteq> ex_C"
  by (simp_all add: ex_A_def ex_B_def ex_C_def)

text \<open>
  Claim C1. For a set built by the constructor and a query \<open>start < end\<close> that envelops
  no padded span: when no padded span contains both endpoints the result is \<^verbatim>\<open>None\<close>
  (no match); when more than two do, \<^verbatim>\<open>match\<close> raises; otherwise it returns the
  amplicons whose padded span contains both endpoints, each once.
\<close>

theorem match_without_envelopment:
  assumes "AmpliconSet_init name amps tol sn = Inr S"
    and "start < end'"
    and "envelopment tol amps start end' = {}"
  shows "(containment tol amps start end' = {} \<longrightarrow> AmpliconSet_match S start end' = Inr None) \<and>
         (card (containment tol amps start end') > 2 \<longrightarrow>
            AmpliconSet_match S start end' = Inl Exception) \<and>
         (containment tol amps start end' \<noteq> {} \<and> card (containment tol amps start end') \<le> 2 \<longrightarrow>
            (\<exists>xs. AmpliconSet_match S start end' = Inr (Some xs) \<and> distinct xs \<and>
                  set xs = containment tol amps start end'))"
proof -
  from match_built[OF assms(1,2)] obtain xs where
    xs: "distinct xs" "set xs = containment tol amps start end'"
    and m: "AmpliconSet_match S start end' =
             (if envelopment tol amps start end' \<noteq> {} then Inr None
              else if containment tol amps start end' = {} then Inr None
              else if card (containment tol amps start end') > 2 then Inl Exception
              else Inr (Some xs))" by blast
  have "card (containment tol amps start end') > 2 \<Longrightarrow> containment tol amps start end' \<noteq> {}"
    by auto
  with m xs assms(3) show ?thesis by auto
qed

theorem match_without_envelopment_witness:
  "AmpliconSet_init ''scheme'' ex_amplicons 5 None = Inr (ex_scheme ''scheme'' (Some ''Y'')) \<and>
   (198 :: int) < 202 \<and> envelopment 5 ex_amplicons 198 202 = {} \<and>
   containment 5 ex_amplicons 198 202 = {ex_A, ex_B} \<and>
   (\<exists>xs. AmpliconSet_match (ex_scheme ''scheme'' (Some ''Y'')) 198 202 = Inr (Some xs) \<and>
         distinct xs \<and> set xs = {ex_A, ex_B})"
proof -
  have b: "AmpliconSet_init ''scheme'' ex_amplicons 5 None = Inr (ex_scheme ''scheme'' (Some ''Y''))"
    using ex_scheme_built[of "''scheme''"] by (simp add: ex_hash)
  have e: "envelopment 5 ex_amplicons 198 202 = {}"
    by (simp add: envelopment_def ex_amplicons_def span_within_def ex_spans)
  have c: "containment 5 ex_amplicons 198 202 = {ex_A, ex_B}"
    by (simp add: containment_def ex_amplicons_def span_contains_def ex_spans)
  have k: "card {ex_A, ex_B} = 2" using ex_distinct by simp
  from match_without_envelopment[OF b _ e] b e c k show ?thesis by simp
qed

text \<open>
  Claim C2. For a set built by the constructor and a query \<open>start < end\<close>: when the read
  envelops at least one padded span, the result is \<^verbatim>\<open>None\<close> (no match), whatever the
  number of padded spans that contain both endpoints, and nothing is raised.
\<close>

theorem match_envelopment:
  assumes "AmpliconSet_init name amps tol sn = Inr S"
    and "start < end'"
    and "envelopment tol amps start end' \<noteq> {}"
  shows "AmpliconSet_match S start end' = Inr None"
proof -
  from match_built[OF assms(1,2)] assms(3) show ?thesis by auto
qed

theorem match_envelopment_witness:
  "AmpliconSet_init ''scheme'' ex_amplicons 5 None = Inr (ex_scheme ''scheme'' (Some ''Y'')) \<and>
   (90 :: int) < 310 \<and> envelopment 5 ex_amplicons 90 310 = {ex_A, ex_B} \<and>
   AmpliconSet_match (ex_scheme ''scheme'' (Some ''Y'')) 90 310 = Inr None"
proof -
  have b: "AmpliconSet_init ''scheme'' ex_amplicons 5 None = Inr (ex_scheme ''scheme'' (Some ''Y''))"
    using ex_scheme_built[of "''scheme''"] by (simp add: ex_hash)
  have e: "envelopment 5 ex_amplicons 90 310 = {ex_A, ex_B}"
    by (simp add: envelopment_def ex_amplicons_def span_within_def ex_spans)
  then have "envelopment 5 ex_amplicons 90 310 \<noteq> {}" by simp
  from match_envelopment[OF b _ this] b e show ?thesis by simp
qed

text \<open>
  Claim C3. A set built with tolerance 5 over an amplicon A with start 100 and end 200 and
  an amplicon B with start 195 and end 300: \<^verbatim>\<open>match(198, 202)\<close> returns A and B,
  \<^verbatim>\<open>match(100, 150)\<close> returns A, and \<^verbatim>\<open>match(90, 310)\<close> and \<^verbatim>\<open>match(10, 20)\<close>
  return \<^verbatim>\<open>None\<close> (no match).
\<close>

theorem scenario:
  assumes "a_start A = Some 100" "a_end A = Some 200"
    and "a_start B = Some 195" "a_end B = Some 300"
    and "AmpliconSet_init name [(na, A), (nb, B)] 5 sn = Inr S"
  shows "(\<exists>xs. AmpliconSet_match S 198 202 = Inr (Some xs) \<and> set xs = {A, B}) \<and>
         (\<exists>xs. AmpliconSet_match S 100 150 = Inr (Some xs) \<and> set xs = {A}) \<and>
         AmpliconSet_match S 90 310 = Inr None \<and>
         AmpliconSet_match S 10 20 = Inr None"
proof -
  have ne: "A \<noteq> B" using assms(1,3) by auto
  have pa: "padded_span 5 A = Some (95, 205)" and pb: "padded_span 5 B = Some (190, 305)"
    using assms(1-4) by (simp_all add: padded_span_def)
  have c1: "containment 5 [(na, A), (nb, B)] 198 202 = {A, B}"
    and e1: "envelopment 5 [(na, A), (nb, B)] 198 202 = {}"
    and c2: "containment 5 [(na, A), (nb, B)] 100 150 = {A}"
    and e2: "envelopment 5 [(na, A), (nb, B)] 100 150 = {}"
    and e3: "envelopment 5 [(na, A), (nb, B)] 90 310 = {A, B}"
    and c4: "containment 5 [(na, A), (nb, B)] 10 20 = {}"
    and e4: "envelopment 5 [(na, A), (nb, B)] 10 20 = {}"
    using pa pb by (simp_all add: containment_def envelopment_def span_contains_def span_within_def)
  have k1: "card {A, B} = 2" using ne by simp
  from match_built[OF assms(5), of 198 202] c1 e1 k1
  have m1: "\<exists>xs. AmpliconSet_match S 198 202 = Inr (Some xs) \<and> set xs = {A, B}" by auto
  from match_built[OF assms(5), of 100 150] c2 e2
  have m2: "\<exists>xs. AmpliconSet_match S 100 150 = Inr (Some xs) \<and> set xs = {A}" by auto
  from match_built[OF assms(5), of 90 310] e3
  have m3: "AmpliconSet_match S 90 310 = Inr None" by auto
  from match_built[OF assms(5), of 10 20] c4 e4
  have m4: "AmpliconSet_match S 10 20 = Inr None" by auto
  from m1 m2 m3 m4 show ?thesis by blast
qed

theorem scenario_witness:
  "a_start ex_A = Some 100 \<and> a_end ex_A = Some 200 \<and>
   a_start ex_B = Some 195 \<and> a_end ex_B = Some 300 \<and>
   AmpliconSet_init ''scheme'' [(''A'', ex_A), (''B'', ex_B)] 5 None
     = Inr (ex_scheme ''scheme'' (Some ''Y'')) \<and>
   (\<exists>xs. AmpliconSet_match (ex_scheme ''scheme'' (Some ''Y'')) 198 202 = Inr (Some xs) \<and>
         set xs = {ex_A, ex_B}) \<and>
   (\<exists>xs. AmpliconSet_match (ex_scheme ''scheme'' (Some ''Y'')) 100 150 = Inr (Some xs) \<and>
         set xs = {ex_A}) \<and>
   AmpliconSet_match (ex_scheme ''scheme'' (Some ''Y'')) 90 310 = Inr None \<and>
   AmpliconSet_match (ex_scheme ''scheme'' (Some ''Y'')) 10 20 = Inr None"
proof -
  have b: "AmpliconSet_init ''scheme'' [(''A'', ex_A), (''B'', ex_B)] 5 None
             = Inr (ex_scheme ''scheme'' (Some ''Y''))"
    using ex_scheme_built[of "''scheme''"] by (simp add: ex_hash ex_amplicons_def)
  have s: "a_start ex_A = Some 100" "a_end ex_A = Some 200"
    "a_start ex_B = Some 195" "a_end ex_B = Some 300"
    by (simp_all add: ex_A_def ex_B_def)
  from scenario[OF s b] s b show ?thesis by simp
qed

section \<open>AmpliconSet: the sequence table\<close>

lemma all_primers_owned: "all_primers amps = map fst (owned amps)"
  by (induction amps) (auto simp: all_primers_def owned_def comp_def)

lemma owned_Cons:
  "owned ((n, a) # amps) = map (\<lambda>p. (p, a)) (a_left a) @ map (\<lambda>p. (p, a)) (a_right a) @ owned amps"
  by (simp add: owned_def)

lemma all_primers_Cons:
  "all_primers ((n, a) # amps) = a_left a @ a_right a @ all_primers amps"
  by (simp add: all_primers_def)

lemma owned_mem:
  "(n, a) \<in> set amps \<Longrightarrow> p \<in> set (a_left a) \<union> set (a_right a) \<Longrightarrow> (p, a) \<in> set (owned amps)"
proof (induction amps)
  case Nil
  then show ?case by simp
next
  case (Cons x amps)
  then show ?case by (cases x) (auto simp: owned_Cons)
qed

lemma add_primer_seqs_eq:
  "add_primer_seqs a ps (sq, pl) = (sq', pl') \<Longrightarrow>
     sq' = fold (\<lambda>(p, a). AList.update (p_seq p) a) (map (\<lambda>p. (p, a)) ps) sq \<and>
     set pl' = set pl \<union> (length \<circ> p_seq) ` set ps"
  unfolding add_primer_seqs_def
  by (induction ps arbitrary: sq pl) auto

lemma init_loop_seqs:
  assumes "init_loop tol amps (ids, sq, pl, t) = Inr (ids', sq', pl', t')"
  shows "sq' = fold (\<lambda>(p, a). AList.update (p_seq p) a) (owned amps) sq \<and>
         set pl' = set pl \<union> (length \<circ> p_seq) ` set (all_primers amps)"
  using assms
proof (induction amps arbitrary: ids sq pl t)
  case Nil
  then show ?case by (simp add: owned_def all_primers_def)
next
  case (Cons na amps)
  obtain n a where na: "na = (n, a)" by (cases na)
  obtain sq1 pl1 where l: "add_primer_seqs a (a_left a) (sq, pl) = (sq1, pl1)"
    by (cases "add_primer_seqs a (a_left a) (sq, pl)")
  obtain sq2 pl2 where r: "add_primer_seqs a (a_right a) (sq1, pl1) = (sq2, pl2)"
    by (cases "add_primer_seqs a (a_right a) (sq1, pl1)")
  from Cons.prems l r obtain ids1 t1 where
    rest: "init_loop tol amps (ids1, sq2, pl2, t1) = Inr (ids', sq', pl', t')"
    unfolding na by (auto split: option.splits sum.splits)
  from Cons.IH[OF rest] have ih: "sq' = fold (\<lambda>(p, a). AList.update (p_seq p) a) (owned amps) sq2"
    "set pl' = set pl2 \<union> (length \<circ> p_seq) ` set (all_primers amps)" by simp_all
  from add_primer_seqs_eq[OF l] add_primer_seqs_eq[OF r] ih
  show ?case unfolding na by (simp add: owned_Cons all_primers_Cons image_Un Un_assoc)
qed

lemma fold_update_map_of:
  "map_of (fold (\<lambda>(x, v). AList.update (g x) v) al acc)
     = map_of acc ++ map_of (rev (map (\<lambda>(x, v). (g x, v)) al))"
proof (induction al arbitrary: acc)
  case Nil
  then show ?case by simp
next
  case (Cons xv al)
  obtain x v where xv: "xv = (x, v)" by (cases xv)
  have "map_of (fold (\<lambda>(x, v). AList.update (g x) v) (xv # al) acc)
          = map_of (fold (\<lambda>(x, v). AList.update (g x) v) al (AList.update (g x) v acc))"
    by (simp add: xv)
  also have "\<dots> = map_of (AList.update (g x) v acc) ++ map_of (rev (map (\<lambda>(x, v). (g x, v)) al))"
    by (rule Cons.IH)
  also have "\<dots> = (map_of acc)(g x \<mapsto> v) ++ map_of (rev (map (\<lambda>(x, v). (g x, v)) al))"
    by (simp only: update_conv')
  also have "\<dots> = map_of acc ++ map_of (rev (map (\<lambda>(x, v). (g x, v)) (xv # al)))"
    by (auto simp: xv fun_eq_iff map_add_def split: option.splits)
  finally show ?case .
qed

lemma fold_update_lookup:
  assumes "distinct (map (g \<circ> fst) al)" "(x, v) \<in> set al"
  shows "map_of (fold (\<lambda>(x, v). AList.update (g x) v) al acc) (g x) = Some v"
proof -
  have m: "map fst (map (\<lambda>(x, v). (g x, v)) al) = map (g \<circ> fst) al"
    by (induction al) auto
  have "distinct (map fst (map (\<lambda>(x, v). (g x, v)) al))"
    using assms(1) by (simp only: m)
  then have d: "distinct (map fst (rev (map (\<lambda>(x, v). (g x, v)) al)))"
    by (simp only: rev_map[symmetric] distinct_rev)
  have "(g x, v) \<in> set (rev (map (\<lambda>(x, v). (g x, v)) al))"
    using assms(2) by force
  with d have "map_of (rev (map (\<lambda>(x, v). (g x, v)) al)) (g x) = Some v"
    by simp
  then show ?thesis
    by (simp add: fold_update_map_of map_add_find_right)
qed

lemma fold_update_keys:
  "distinct (map fst acc) \<Longrightarrow>
     distinct (map fst (fold (\<lambda>(x, v). AList.update (g x) v) al acc)) \<and>
     fst ` set (fold (\<lambda>(x, v). AList.update (g x) v) al acc) = fst ` set acc \<union> g ` fst ` set al"
proof (induction al arbitrary: acc)
  case Nil
  then show ?case by simp
next
  case (Cons xv al)
  obtain x v where xv: "xv = (x, v)" by (cases xv)
  from Cons.prems have "distinct (map fst (AList.update (g x) v acc))"
    by (rule distinct_update)
  from Cons.IH[OF this] have "distinct (map fst (fold (\<lambda>(x, v). AList.update (g x) v) (xv # al) acc))"
    and "fst ` set (fold (\<lambda>(x, v). AList.update (g x) v) (xv # al) acc)
           = insert (g x) (fst ` set acc) \<union> g ` fst ` set al"
    by (simp_all add: xv dom_update)
  then show ?case
    by (simp add: xv)
qed

text \<open>
  Claim C9. In a set built by the constructor whose primers have pairwise distinct
  prefixes of length \<open>min_primer_length\<close>, that length is the least sequence length
  over all primers, and the first \<open>min_primer_length\<close> bases of any primer, looked up
  in the sequence table, give the amplicon that owns the primer.
\<close>

theorem prefix_lookup:
  assumes "AmpliconSet_init name amps tol sn = Inr S"
    and "distinct (map (take (min_primer_length S) \<circ> p_seq) (all_primers amps))"
    and "(n, a) \<in> set amps"
    and "p \<in> set (a_left a) \<union> set (a_right a)"
  shows "min_primer_length S = Min (set (map (length \<circ> p_seq) (all_primers amps))) \<and>
         map_of (seqs S) (take (min_primer_length S) (p_seq p)) = Some a"
proof -
  let ?m = "min_primer_length S"
  from init_loop_of_init[OF assms(1)] obtain ids sq pl where
    l: "init_loop tol amps ([], [], [], []) = Inr (ids, sq, pl, tree S)"
    and pl: "pl \<noteq> []" and m: "?m = fold min (tl pl) (hd pl)"
    and sq: "seqs S = fold (\<lambda>(k, v). AList.update (take ?m k) v) sq []" by blast
  from init_loop_seqs[OF l] have sq_eq: "sq = fold (\<lambda>(p, a). AList.update (p_seq p) a) (owned amps) []"
    and pl_eq: "set pl = (length \<circ> p_seq) ` set (all_primers amps)" by simp_all
  have "?m = Min (set (hd pl # tl pl))"
    unfolding m by (simp only: Min.set_eq_fold)
  with pl pl_eq have min: "?m = Min (set (map (length \<circ> p_seq) (all_primers amps)))"
    by simp
  have own: "(p, a) \<in> set (owned amps)"
    using owned_mem[OF assms(3,4)] .
  have dmap: "distinct (map (take ?m) (map p_seq (all_primers amps)))"
    using assms(2) by simp
  note both = iffD1[OF distinct_map dmap]
  have dseq: "distinct (map p_seq (all_primers amps))"
    and inj: "inj_on (take ?m) (set (map p_seq (all_primers amps)))"
    using both by blast+
  have "distinct (map (p_seq \<circ> fst) (owned amps))"
    using dseq by (simp add: all_primers_owned)
  from fold_update_lookup[OF this own, of "[]"] have "map_of sq (p_seq p) = Some a"
    by (simp add: sq_eq)
  then have in_sq: "(p_seq p, a) \<in> set sq" by (rule map_of_SomeD)
  from fold_update_keys[of "[]" p_seq "owned amps"] have keys: "distinct (map fst sq)"
    "fst ` set sq = p_seq ` fst ` set (owned amps)" by (simp_all add: sq_eq)
  have "set (map fst sq) = set (map p_seq (all_primers amps))"
    using keys(2) by (simp add: all_primers_owned image_image)
  with inj have "inj_on (take ?m) (set (map fst sq))" by (simp only:)
  with keys(1) have "distinct (map (take ?m) (map fst sq))"
    by (simp only: distinct_map simp_thms)
  then have "distinct (map (take ?m \<circ> fst) sq)"
    by (simp only: map_map)
  from fold_update_lookup[OF this in_sq, of "[]"] have "map_of (seqs S) (take ?m (p_seq p)) = Some a"
    by (simp add: sq)
  with min show ?thesis by simp
qed

theorem prefix_lookup_witness:
  "AmpliconSet_init ''scheme'' ex_amplicons 5 None = Inr (ex_scheme ''scheme'' (Some ''Y'')) \<and>
   distinct (map (take 10 \<circ> p_seq) (all_primers ex_amplicons)) \<and>
   (''A'', ex_A) \<in> set ex_amplicons \<and>
   map (length \<circ> p_seq) (a_left ex_A) = [12] \<and>
   min_primer_length (ex_scheme ''scheme'' (Some ''Y'')) = 10 \<and>
   map_of (seqs (ex_scheme ''scheme'' (Some ''Y''))) ''ACGTACGTAC'' = Some ex_A"
proof -
  have b: "AmpliconSet_init ''scheme'' ex_amplicons 5 None = Inr (ex_scheme ''scheme'' (Some ''Y''))"
    using ex_scheme_built[of "''scheme''"] by (simp add: ex_hash)
  have m: "min_primer_length (ex_scheme ''scheme'' (Some ''Y'')) = 10"
    by (simp add: ex_scheme_def)
  have d: "distinct (map (take (min_primer_length (ex_scheme ''scheme'' (Some ''Y''))) \<circ> p_seq)
                       (all_primers ex_amplicons))"
    unfolding m by (simp add: all_primers_def ex_amplicons_def ex_A_def ex_B_def)
  have i: "(''A'', ex_A) \<in> set ex_amplicons"
    by (simp add: ex_amplicons_def)
  have p: "\<lparr>p_name = ''A_L'', p_seq = ''ACGTACGTACGT'', p_left = True, p_forward = True,
            p_pos = 100\<rparr> \<in> set (a_left ex_A) \<union> set (a_right ex_A)"
    by (simp add: ex_A_def)
  have l: "map (length \<circ> p_seq) (a_left ex_A) = [12]"
    by (simp add: ex_A_def)
  from prefix_lookup[OF b d i p] b d i l m show ?thesis
    by simp
qed

section \<open>AmpliconSet: what the constructor checks\<close>

text \<open>
  With only non-null intervals in the index, the loop of the constructor ends without an
  exception exactly when every amplicon has a non-empty padded span.
\<close>

lemma init_loop_ok_iff:
  assumes "\<forall>iv \<in> set t. fst iv < fst (snd iv)"
  shows "(\<exists>st. init_loop tol amps (ids, sq, pl, t) = Inr st) \<longleftrightarrow>
         (\<forall>a \<in> snd ` set amps. \<exists>b e. padded_span tol a = Some (b, e) \<and> b < e)"
  using assms
proof (induction amps arbitrary: ids sq pl t)
  case Nil
  then show ?case by simp
next
  case (Cons na amps)
  obtain n a where na: "na = (n, a)" by (cases na)
  obtain sq2 pl2 where r: "add_primer_seqs a (a_right a)
      (add_primer_seqs a (a_left a) (sq, pl)) = (sq2, pl2)"
    by (cases "add_primer_seqs a (a_right a) (add_primer_seqs a (a_left a) (sq, pl))")
  show ?case
  proof (cases "padded_span tol a")
    case None
    then have "init_loop tol (na # amps) (ids, sq, pl, t) = Inl TypeError"
      unfolding na by (auto simp: padded_span_def split: option.splits prod.splits)
    with None show ?thesis unfolding na by simp
  next
    case (Some be)
    obtain b e where be: "be = (b, e)" by (cases be)
    from Some be obtain s e0 where se: "a_start a = Some s" "a_end a = Some e0"
      "b = s - tol" "e = e0 + tol"
      by (auto simp: padded_span_def split: option.splits)
    show ?thesis
    proof (cases "b < e")
      case False
      have "(b, e, a) \<notin> set t" using Cons.prems False by auto
      with False have "tree_add (b, e, a) t = Inl ValueError"
        by (simp add: tree_add_def)
      then have "init_loop tol (na # amps) (ids, sq, pl, t) = Inl ValueError"
        unfolding na using se r by simp
      with False Some be show ?thesis unfolding na by simp
    next
      case True
      obtain t1 where t1: "tree_add (b, e, a) t = Inr t1" "set t1 = insert (b, e, a) (set t)"
        using True by (cases "(b, e, a) \<in> set t") (auto simp: tree_add_def insert_absorb)
      then have inv: "\<forall>iv \<in> set t1. fst iv < fst (snd iv)"
        using Cons.prems True by simp
      have step: "init_loop tol (na # amps) (ids, sq, pl, t)
              = init_loop tol amps (AList.update (a_shortname a) a ids, sq2, pl2, t1)"
        unfolding na using se r t1(1) by simp
      from Cons.IH[OF inv, of "AList.update (a_shortname a) a ids" sq2 pl2] step True Some be
      show ?thesis unfolding na by simp
    qed
  qed
qed

lemma init_loop_ok_iff_start:
  "(\<exists>st. init_loop tol amps ([], [], [], []) = Inr st) \<longleftrightarrow>
   (\<forall>a \<in> snd ` set amps. \<exists>b e. padded_span tol a = Some (b, e) \<and> b < e)"
  by (rule init_loop_ok_iff) simp

lemma init_ok_iff:
  "(\<exists>S. AmpliconSet_init name amps tol sn = Inr S) \<longleftrightarrow>
     all_primers amps \<noteq> [] \<and>
     (\<forall>a \<in> snd ` set amps. \<exists>b e. padded_span tol a = Some (b, e) \<and> b < e)"
proof (cases "init_loop tol amps ([], [], [], [])")
  case (Inl err)
  then have "\<not> (\<exists>S. AmpliconSet_init name amps tol sn = Inr S)"
    by (simp add: AmpliconSet_init_def)
  moreover have "\<not> (\<exists>st'. init_loop tol amps ([], [], [], []) = Inr st')"
    using Inl by simp
  then have "\<not> (\<forall>a \<in> snd ` set amps. \<exists>b e. padded_span tol a = Some (b, e) \<and> b < e)"
    using init_loop_ok_iff_start[of tol amps] by blast
  ultimately show ?thesis by blast
next
  case (Inr st)
  obtain ids sq pl t where st: "st = (ids, sq, pl, t)" by (cases st)
  have "\<exists>st'. init_loop tol amps ([], [], [], []) = Inr st'"
    using Inr by blast
  then have ok: "\<forall>a \<in> snd ` set amps. \<exists>b e. padded_span tol a = Some (b, e) \<and> b < e"
    using init_loop_ok_iff_start[of tol amps] by blast
  from init_loop_seqs[OF Inr[unfolded st]]
  have "set pl = (length \<circ> p_seq) ` set (all_primers amps)" by simp
  then have pl: "pl = [] \<longleftrightarrow> all_primers amps = []"
    by (metis image_is_empty set_empty)
  have "(\<exists>S. AmpliconSet_init name amps tol sn = Inr S) \<longleftrightarrow> pl \<noteq> []"
    using Inr st by (auto simp: AmpliconSet_init_def Let_def split: list.splits)
  with pl ok show ?thesis by simp
qed

text \<open>
  Claim C7, as amended. The constructor raises on an empty collection of amplicons. It
  succeeds exactly when some amplicon carries a primer and every amplicon has a start and
  an end whose padded span is not empty: how many padded spans cover a point plays no
  part, so a scheme in which three or more padded spans share a point is built.
\<close>

theorem init_checks:
  "AmpliconSet_init name [] tol sn = Inl ValueError \<and>
   ((\<exists>S. AmpliconSet_init name amps tol sn = Inr S) \<longleftrightarrow>
      all_primers amps \<noteq> [] \<and>
      (\<forall>a \<in> snd ` set amps. \<exists>b e. padded_span tol a = Some (b, e) \<and> b < e))"
proof -
  have "AmpliconSet_init name [] tol sn = Inl ValueError"
    by (simp add: AmpliconSet_init_def)
  with init_ok_iff[of name amps tol sn] show ?thesis by blast
qed

theorem init_checks_witness:
  "all_primers ex_amplicons3 \<noteq> [] \<and>
   padded_span 5 ex_A = Some (95, 205) \<and> padded_span 5 ex_B = Some (190, 305) \<and>
   padded_span 5 ex_C = Some (187, 265) \<and>
   (\<exists>S. AmpliconSet_init ''scheme'' ex_amplicons3 5 None = Inr S)"
proof -
  have p: "all_primers ex_amplicons3 \<noteq> []"
    by (simp add: all_primers_def ex_amplicons3_def ex_A_def)
  have s: "\<forall>a \<in> snd ` set ex_amplicons3. \<exists>b e. padded_span 5 a = Some (b, e) \<and> b < e"
    by (simp add: ex_amplicons3_def ex_spans)
  from init_checks[of "''scheme''" 5 None ex_amplicons3] p s ex_spans show ?thesis
    by blast
qed

text \<open>
  The claim as stated fails: the padded spans of A, B and C all contain position 198, and
  the constructor builds the set.
\<close>

theorem init_overlap_counterexample:
  "\<not> isl (AmpliconSet_init ''scheme'' ex_amplicons3 5 None) \<and>
   span_contains 5 ex_A 198 \<and> span_contains 5 ex_B 198 \<and> span_contains 5 ex_C 198 \<and>
   card {ex_A, ex_B, ex_C} = 3"
  using ex_distinct
  by (simp add: AmpliconSet_init_def ex_amplicons3_def ex_A_def ex_B_def ex_C_def
      add_primer_seqs_def tree_add_def span_contains_def padded_span_def)

section \<open>Shortnames and tag propagation\<close>

lemma init_loop_ids:
  assumes "init_loop tol amps (ids, sq, pl, t) = Inr (ids', sq', pl', t')"
  shows "ids' = fold (\<lambda>(x, v). AList.update (a_shortname x) v) (map (\<lambda>(n, a). (a, a)) amps) ids"
  using assms
proof (induction amps arbitrary: ids sq pl t)
  case Nil
  then show ?case by simp
next
  case (Cons na amps)
  obtain n a where na: "na = (n, a)" by (cases na)
  from Cons.prems obtain sq1 pl1 t1 where
    rest: "init_loop tol amps (AList.update (a_shortname a) a ids, sq1, pl1, t1)
             = Inr (ids', sq', pl', t')"
    unfolding na by (auto split: option.splits sum.splits prod.splits)
  from Cons.IH[OF rest] show ?case unfolding na by simp
qed

lemma init_ids_lookup:
  assumes "AmpliconSet_init name amps tol sn = Inr S"
    and "distinct (map (a_shortname \<circ> snd) amps)"
    and "a \<in> snd ` set amps"
  shows "map_of (amplicon_ids S) (a_shortname a) = Some a"
proof -
  from init_loop_of_init[OF assms(1)] obtain sq pl where
    l: "init_loop tol amps ([], [], [], []) = Inr (amplicon_ids S, sq, pl, tree S)" by blast
  have m: "map (a_shortname \<circ> fst) (map (\<lambda>(n, a). (a, a)) amps) = map (a_shortname \<circ> snd) amps"
    by (induction amps) auto
  have d: "distinct (map (a_shortname \<circ> fst) (map (\<lambda>(n, a). (a, a)) amps))"
    using assms(2) by (simp only: m)
  have i: "(a, a) \<in> set (map (\<lambda>(n, a). (a, a)) amps)"
    using assms(3) by force
  from fold_update_lookup[OF d i, of "[]"] init_loop_ids[OF l] show ?thesis by simp
qed

text \<open>
  The derived shortname is one character of the 54 code points from 65 (\<open>A\<close>) to 118
  (\<open>v\<close>); as a function of the name alone it is the same for every construction from
  that name. It is assigned only when no shortname, or the empty one, is supplied.
\<close>

lemma base54_hash_alphabet:
  "\<exists>c. base54_hash name = [c] \<and> (65 :: int) \<le> of_char c \<and> (of_char c :: int) \<le> 118"
proof -
  let ?n = "((sum_list (map of_char name) - of_char CHR ''A'') mod 54) + (65 :: int)"
  have "0 \<le> (sum_list (map of_char name) - of_char CHR ''A'') mod (54 :: int)"
    "(sum_list (map of_char name) - of_char CHR ''A'') mod (54 :: int) < 54"
    by simp_all
  then have r: "65 \<le> ?n" "?n \<le> 118" by linarith+
  then have "?n mod 256 = ?n" by simp
  then have "(of_char (char_of ?n) :: int) = ?n" by simp
  with r show ?thesis unfolding base54_hash_def by simp
qed

lemma init_shortname:
  assumes "AmpliconSet_init name amps tol sn = Inr S"
  shows "s_shortname S = (if sn = None \<or> sn = Some [] then Some (base54_hash name) else None)"
  using init_loop_of_init[OF assms] by blast

lemma set_tags_single:
  assumes "s_shortname S = Some sh"
  shows "set_tags [S] r [s_name S \<mapsto> M]
           = Inr (read_set_tags r (map (\<lambda>a. (CHR ''Z'' # sh, a_shortname a, ''i'')) M))"
  using assms by (simp add: set_tags_def)

text \<open>
  \<^verbatim>\<open>get_tags\<close> passes over the tags whose key does not start with \<open>Z\<close>, and turns
  the tags that \<^verbatim>\<open>set_tags\<close> writes for a set back into the amplicons when the id
  table maps the shortname of each to itself.
\<close>

lemma get_tags_loop_skip:
  assumes "\<forall>(k, v, t) \<in> set ks. k \<noteq> [] \<and> hd k \<noteq> CHR ''Z''"
  shows "get_tags_loop S (map (\<lambda>(k, v, t). Tuple2 k v) ks @ rest) acc = get_tags_loop S rest acc"
  using assms
proof (induction ks)
  case Nil
  then show ?case by simp
next
  case (Cons kvt ks)
  obtain k v t where kvt: "kvt = (k, v, t)" by (cases kvt)
  from Cons.prems obtain c cs where k: "k = c # cs" "c \<noteq> CHR ''Z''"
    unfolding kvt by (cases k) auto
  from Cons.prems have "\<forall>(k, v, t) \<in> set ks. k \<noteq> [] \<and> hd k \<noteq> CHR ''Z''" by simp
  from Cons.IH[OF this] k(2) show ?case unfolding kvt k(1) by simp
qed

lemma get_tags_loop_pairs:
  assumes "s_shortname S = Some [c]"
    and "\<forall>a \<in> set M. map_of (amplicon_ids S) (a_shortname a) = Some a"
  shows "get_tags_loop S (map (\<lambda>a. Tuple2 (CHR ''Z'' # [c]) (a_shortname a)) M) acc = Inr (acc @ M)"
  using assms(2)
proof (induction M arbitrary: acc)
  case Nil
  then show ?case by simp
next
  case (Cons a M)
  then show ?case using assms(1) by simp
qed

text \<open>
  The round trip where it holds: a set built by the constructor that has its shortname
  attribute (none was supplied, so it is the derived character) and whose amplicons have
  pairwise distinct shortnames, a read that yields its tags as pairs \<open>(key, value)\<close>
  and holds no tag with an empty key or a key that starts with \<open>Z\<close>, and a list
  \<open>M\<close> of amplicons of the set. Then \<^verbatim>\<open>set_tags([S], read, {S.name: M})\<close> followed
  by \<^verbatim>\<open>get_tags(S, read)\<close> returns \<open>M\<close>.
\<close>

lemma tags_round_trip:
  assumes "AmpliconSet_init name amps tol sn = Inr S"
    and "s_shortname S \<noteq> None"
    and "distinct (map (a_shortname \<circ> snd) amps)"
    and "set M \<subseteq> snd ` set amps"
    and "\<forall>(k, v, t) \<in> set (tags r). k \<noteq> [] \<and> hd k \<noteq> CHR ''Z''"
  shows "\<exists>r'. set_tags [S] r [s_name S \<mapsto> M] = Inr r' \<and>
              get_tags read_get_tags_pairs S r' = Inr M"
proof -
  from init_loop_of_init[OF assms(1)] assms(2) have "s_shortname S = Some (base54_hash name)"
    by (auto split: if_splits)
  with base54_hash_alphabet[of name] obtain c where c: "s_shortname S = Some [c]" by auto
  let ?ts = "map (\<lambda>a. (CHR ''Z'' # [c], a_shortname a, ''i'')) M"
  let ?kept = "filter (\<lambda>(k, v, t). k \<notin> fst ` set ?ts) (tags r)"
  have st: "set_tags [S] r [s_name S \<mapsto> M] = Inr (read_set_tags r ?ts)"
    using set_tags_single[OF c] .
  have ids: "\<forall>a \<in> set M. map_of (amplicon_ids S) (a_shortname a) = Some a"
    using init_ids_lookup[OF assms(1,3)] assms(4) by blast
  have kept: "\<forall>(k, v, t) \<in> set ?kept. k \<noteq> [] \<and> hd k \<noteq> CHR ''Z''"
    using assms(5) by auto
  have "read_get_tags_pairs (read_set_tags r ?ts)
          = map (\<lambda>(k, v, t). Tuple2 k v) ?kept
            @ map (\<lambda>a. Tuple2 (CHR ''Z'' # [c]) (a_shortname a)) M"
    by (simp add: read_get_tags_pairs_def read_set_tags_def comp_def)
  then have "get_tags read_get_tags_pairs S (read_set_tags r ?ts) = Inr M"
    using get_tags_loop_skip[OF kept] get_tags_loop_pairs[OF c ids, of "[]"]
    by (simp add: get_tags_def)
  with st show ?thesis by blast
qed

lemma tags_round_trip_example:
  "\<exists>r'. set_tags [ex_scheme ''scheme'' (Some ''Y'')] \<lparr>tags = [(''NM'', 3, ''i'')]\<rparr>
            [''scheme'' \<mapsto> [ex_B, ex_A, ex_B]] = Inr r' \<and>
        get_tags read_get_tags_pairs (ex_scheme ''scheme'' (Some ''Y'')) r' = Inr [ex_B, ex_A, ex_B]"
proof -
  have b: "AmpliconSet_init ''scheme'' ex_amplicons 5 None = Inr (ex_scheme ''scheme'' (Some ''Y''))"
    using ex_scheme_built[of "''scheme''"] by (simp add: ex_hash)
  have s: "s_shortname (ex_scheme ''scheme'' (Some ''Y'')) \<noteq> None"
    by (simp add: ex_scheme_def)
  have d: "distinct (map (a_shortname \<circ> snd) ex_amplicons)"
    by (simp add: ex_amplicons_def ex_A_def ex_B_def)
  have m: "set [ex_B, ex_A, ex_B] \<subseteq> snd ` set ex_amplicons"
    by (simp add: ex_amplicons_def)
  have n: "s_name (ex_scheme ''scheme'' (Some ''Y'')) = ''scheme''"
    by (simp add: ex_scheme_def)
  have t: "\<forall>(k, v, t) \<in> set (tags \<lparr>tags = [(''NM'', 3, ''i'')]\<rparr>). k \<noteq> [] \<and> hd k \<noteq> CHR ''Z''"
    by simp
  from tags_round_trip[OF b s d m t] show ?thesis
    unfolding n by blast
qed

text \<open>
  On a read that yields each tag as a triple \<open>(key, value, type)\<close>, the loop header of
  \<^verbatim>\<open>get_tags\<close> cannot unpack the first tag and raises.
\<close>

lemma get_tags_triples_raises:
  "get_tags read_get_tags_triples S (r\<lparr>tags := kvt # ts\<rparr>) = Inl ValueError"
  by (cases kvt) (simp add: get_tags_def read_get_tags_triples_def)

text \<open>
  A set built from A and B with an explicit, non-empty shortname, as
  \<^verbatim>\<open>load_amplicon_schemes\<close> builds its sets.
\<close>

lemma ex_scheme_built_supplied:
  "AmpliconSet_init name ex_amplicons 5 (Some (c # cs)) = Inr (ex_scheme name None)"
  by (simp add: AmpliconSet_init_def ex_amplicons_def ex_scheme_def ex_A_def ex_B_def
      add_primer_seqs_def tree_add_def)

text \<open>
  Claim C4 at its failing inputs. A set built with an explicit, non-empty shortname has
  no shortname attribute. \<^verbatim>\<open>set_tags\<close> raises when it reads the attribute, so no tag
  reaches the read; and on a read that does hold a tag under the key \<open>Z\<close> followed by
  the supplied shortname, \<^verbatim>\<open>get_tags\<close> raises as well. The round trip returns nothing.
\<close>

theorem tags_round_trip_supplied_shortname:
  assumes "AmpliconSet_init name amps tol (Some sn) = Inr S"
    and "sn \<noteq> []"
  shows "set_tags [S] r [s_name S \<mapsto> M] = Inl AttributeError \<and>
         get_tags read_get_tags_pairs S (r\<lparr>tags := (CHR ''Z'' # sn, v, ty) # ts\<rparr>)
           = Inl AttributeError"
proof -
  from init_shortname[OF assms(1)] assms(2) have n: "s_shortname S = None"
    by simp
  from assms(2) obtain c cs where sn: "sn = c # cs" by (cases sn) auto
  have "set_tags [S] r [s_name S \<mapsto> M] = Inl AttributeError"
    using n by (simp add: set_tags_def)
  moreover have "get_tags read_get_tags_pairs S (r\<lparr>tags := (CHR ''Z'' # sn, v, ty) # ts\<rparr>)
                   = Inl AttributeError"
    using n by (simp add: get_tags_def read_get_tags_pairs_def sn)
  ultimately show ?thesis by simp
qed

theorem tags_round_trip_supplied_shortname_witness:
  "AmpliconSet_init ''scheme'' ex_amplicons 5 (Some ''b'') = Inr (ex_scheme ''scheme'' None) \<and>
   set_tags [ex_scheme ''scheme'' None] \<lparr>tags = []\<rparr> [''scheme'' \<mapsto> [ex_B, ex_A]]
     = Inl AttributeError \<and>
   get_tags read_get_tags_pairs (ex_scheme ''scheme'' None)
       \<lparr>tags = [(''Zb'', 1, ''i''), (''Zb'', 0, ''i'')]\<rparr>
     = Inl AttributeError"
proof -
  have b: "AmpliconSet_init ''scheme'' ex_amplicons 5 (Some ''b'') = Inr (ex_scheme ''scheme'' None)"
    by (rule ex_scheme_built_supplied)
  have e: "''b'' \<noteq> []" by simp
  have n: "s_name (ex_scheme ''scheme'' None) = ''scheme''"
    by (simp add: ex_scheme_def)
  from tags_round_trip_supplied_shortname[OF b e, of "\<lparr>tags = []\<rparr>" "[ex_B, ex_A]" 1 "''i''"
      "[(''Zb'', 0, ''i'')]"] b
  show ?thesis unfolding n by simp
qed

text \<open>
  Claim C5 at a failing input. The names \<open>ab\<close> and \<open>ba\<close> give two sets the same
  shortname \<open>W\<close>; \<^verbatim>\<open>set_tags\<close> raises nothing and writes the tags of both sets under
  the one key \<open>ZW\<close>.
\<close>

theorem duplicate_shortname_not_raised:
  "AmpliconSet_init ''ab'' ex_amplicons 5 None = Inr (ex_scheme ''ab'' (Some ''W'')) \<and>
   AmpliconSet_init ''ba'' ex_amplicons 5 None = Inr (ex_scheme ''ba'' (Some ''W'')) \<and>
   set_tags [ex_scheme ''ab'' (Some ''W''), ex_scheme ''ba'' (Some ''W'')] \<lparr>tags = []\<rparr>
       [''ab'' \<mapsto> [ex_A], ''ba'' \<mapsto> [ex_B]]
     = Inr \<lparr>tags = [(''ZW'', 0, ''i''), (''ZW'', 1, ''i'')]\<rparr>"
  using ex_scheme_built[of "''ab''"] ex_scheme_built[of "''ba''"]
  by (simp add: ex_hash set_tags_def read_set_tags_def ex_scheme_def ex_A_def ex_B_def)

text \<open>
  Claim C6 at a failing input. Built with the explicit shortname \<open>a\<close>, the set has no
  shortname attribute at all, and \<^verbatim>\<open>set_tags\<close> fails when it reads it.
\<close>

theorem supplied_shortname_unset:
  "AmpliconSet_init ''scheme'' ex_amplicons 5 (Some ''a'') = Inr (ex_scheme ''scheme'' None) \<and>
   set_tags [ex_scheme ''scheme'' None] \<lparr>tags = []\<rparr> [''scheme'' \<mapsto> [ex_A]] = Inl AttributeError"
  by (simp add: AmpliconSet_init_def ex_amplicons_def ex_scheme_def ex_A_def ex_B_def
      add_primer_seqs_def tree_add_def set_tags_def)

end
